theory Spec2Isabelle
  imports Complex_Main
begin

section \<open>Numbers, points and the Math object\<close>

text \<open>
  The program is JavaScript: every number is an IEEE double. The model reads a number as
  a real: the finite doubles, with exact arithmetic (no rounding, no infinities). The one
  not-a-number the source itself tests for, the result of \<^verbatim>\<open>Math.acos\<close> outside
  \<open>[-1, 1]\<close>, is written out (\<open>js_acos\<close> below).

  A point is the two-element array \<^verbatim>\<open>[lat, lon]\<close>, in degrees.
\<close>

type_synonym point = "real \<times> real"

text \<open>
  The functions of the host's \<^verbatim>\<open>Math\<close> object are not code of the repository, and
  ECMAScript leaves their results implementation-approximated: they are a parameter of
  every function that calls them. \<^verbatim>\<open>Math.abs\<close>, \<^verbatim>\<open>Math.max\<close> and
  \<^verbatim>\<open>Math.min\<close> are exact and are HOL's own.
\<close>

record math =
  PI :: real
  m_sin :: "real \<Rightarrow> real"
  m_cos :: "real \<Rightarrow> real"
  m_acos :: "real \<Rightarrow> real"
  m_asin :: "real \<Rightarrow> real"
  m_atan2 :: "real \<Rightarrow> real \<Rightarrow> real"
  m_sqrt :: "real \<Rightarrow> real"

text \<open>
  \<^verbatim>\<open>Math.acos(x)\<close> is not-a-number when \<open>x\<close> lies outside \<open>[-1, 1]\<close> (ECMAScript
  fixes this case); \<open>None\<close> is that not-a-number.
\<close>

definition js_acos :: "math \<Rightarrow> real \<Rightarrow> real option" where
  "js_acos M x = (if x < - 1 \<or> 1 < x then None else Some (m_acos M x))"

text \<open>
  \<^verbatim>\<open>Math.atan2(y, x)\<close> on the reals: the angle of the point \<open>(x, y)\<close> in
  \<open>(-pi, pi]\<close>, and 0 at the origin (the sign of a zero is not kept by a real).
\<close>

definition atan2 :: "real \<Rightarrow> real \<Rightarrow> real" where
  "atan2 y x =
     (if 0 < x then arctan (y / x)
      else if x < 0 then (if 0 \<le> y then arctan (y / x) + pi else arctan (y / x) - pi)
      else if 0 < y then pi / 2
      else if y < 0 then - (pi / 2)
      else 0)"

text \<open>The Math object of exact real arithmetic.\<close>

definition exact_math :: math where
  "exact_math =
     \<lparr>PI = pi, m_sin = sin, m_cos = cos, m_acos = arccos, m_asin = arcsin,
      m_atan2 = atan2, m_sqrt = sqrt\<rparr>"

section \<open>dashboard.js: splitAtAntimeridian\<close>

text \<open>
  The loop over \<^verbatim>\<open>points\<close>, with the two variables it updates: \<^verbatim>\<open>segments\<close> and
  \<^verbatim>\<open>currentSegment\<close>.
\<close>

fun split_loop :: "point list \<Rightarrow> point list list \<Rightarrow> point list \<Rightarrow> point list list \<times> point list" where
  "split_loop [] segments currentSegment = (segments, currentSegment)"
| "split_loop ((lat, lon) # rest) segments currentSegment =
     (if length currentSegment = 0 then split_loop rest segments (currentSegment @ [(lat, lon)])
      else
        (case last currentSegment of (prevLat, prevLon) \<Rightarrow>
           if \<bar>lon - prevLon\<bar> > 180 then
             (let fraction = (180 - \<bar>prevLon\<bar>) / \<bar>lon - prevLon\<bar>;
                  midLat = prevLat + (lat - prevLat) * fraction;
                  midLon = (if prevLon > 0 then 179.999 else - 179.999);
                  closed = currentSegment @ [(midLat, midLon)];
                  otherLon = (if prevLon > 0 then - 179.999 else 179.999)
              in split_loop rest (segments @ [closed]) [(midLat, otherLon), (lat, lon)])
           else split_loop rest segments (currentSegment @ [(lat, lon)])))"

definition splitAtAntimeridian :: "point list \<Rightarrow> point list list" where
  "splitAtAntimeridian points =
     (case split_loop points [] [] of
        (segments, currentSegment) \<Rightarrow>
          if length currentSegment > 0 then segments @ [currentSegment] else segments)"

section \<open>dashboard.js: calculateGeodesicPoints\<close>

text \<open>
  The second longitude after the choice of the wrap direction (the source's
  \<^verbatim>\<open>if (Math.abs(lonDiff) > 180)\<close>), both longitudes in radians.
\<close>

definition wrap_direction :: "math \<Rightarrow> real \<Rightarrow> real \<Rightarrow> real" where
  "wrap_direction M lam1 lam2 =
     (let lonDiff = (lam2 - lam1) * 180 / PI M in
      if \<bar>lonDiff\<bar> > 180 then
        (if lonDiff > 0 then lam2 - 2 * PI M else lam2 + 2 * PI M)
      else lam2)"

text \<open>The argument the source passes to \<^verbatim>\<open>Math.acos\<close>, and the central angle.\<close>

definition acos_argument :: "math \<Rightarrow> real \<Rightarrow> real \<Rightarrow> real \<Rightarrow> real" where
  "acos_argument M phi1 phi2 dlam =
     max (- 1) (min 1
       (m_sin M phi1 * m_sin M phi2 + m_cos M phi1 * m_cos M phi2 * m_cos M dlam))"

definition central_angle :: "math \<Rightarrow> real \<Rightarrow> real \<Rightarrow> real \<Rightarrow> real" where
  "central_angle M phi1 phi2 dlam = m_acos M (acos_argument M phi1 phi2 dlam)"

definition initial_bearing :: "math \<Rightarrow> real \<Rightarrow> real \<Rightarrow> real \<Rightarrow> real" where
  "initial_bearing M phi1 phi2 dlam =
     m_atan2 M (m_sin M dlam * m_cos M phi2)
       (m_cos M phi1 * m_sin M phi2 - m_sin M phi1 * m_cos M phi2 * m_cos M dlam)"

text \<open>
  The body of the loop at index \<open>i\<close>. With \<open>numPoints = 0\<close> the source divides 0 by 0
  (a not-a-number); every call in the source passes 100 or 30.
\<close>

definition geodesic_point ::
  "math \<Rightarrow> real \<Rightarrow> real \<Rightarrow> real \<Rightarrow> real \<Rightarrow> nat \<Rightarrow> nat \<Rightarrow> point" where
  "geodesic_point M phi1 lam1 dsigma theta numPoints i =
     (let f = real i / real numPoints;
          sigma = f * dsigma;
          phi = m_asin M (m_sin M phi1 * m_cos M sigma
                          + m_cos M phi1 * m_sin M sigma * m_cos M theta);
          lam = lam1 + m_atan2 M (m_sin M theta * m_sin M sigma * m_cos M phi1)
                         (m_cos M sigma - m_sin M phi1 * m_sin M phi);
          lat = phi * 180 / PI M;
          lon = lam * 180 / PI M
      in (lat, lon))"

function geodesic_loop ::
  "math \<Rightarrow> real \<Rightarrow> real \<Rightarrow> real \<Rightarrow> real \<Rightarrow> nat \<Rightarrow> nat \<Rightarrow> point list \<Rightarrow> point list" where
  "geodesic_loop M phi1 lam1 dsigma theta numPoints i points =
     (if i \<le> numPoints then
        geodesic_loop M phi1 lam1 dsigma theta numPoints (i + 1)
          (points @ [geodesic_point M phi1 lam1 dsigma theta numPoints i])
      else points)"
  by pat_completeness auto
termination
  by (relation "measure (\<lambda>(M, phi1, lam1, dsigma, theta, numPoints, i, points). Suc numPoints - i)") auto

definition calculateGeodesicPoints ::
  "math \<Rightarrow> real \<Rightarrow> real \<Rightarrow> real \<Rightarrow> real \<Rightarrow> nat \<Rightarrow> point list" where
  "calculateGeodesicPoints M lat1 lon1 lat2 lon2 numPoints =
     (let toRad = PI M / 180;
          phi1 = lat1 * toRad;
          lam1 = lon1 * toRad;
          phi2 = lat2 * toRad;
          lam2 = wrap_direction M lam1 (lon2 * toRad);
          dlam = lam2 - lam1;
          dsigma = central_angle M phi1 phi2 dlam
      in if dsigma < 0.001 then [(lat1, lon1), (lat2, lon2)]
         else
           (let theta = initial_bearing M phi1 phi2 dlam
            in geodesic_loop M phi1 lam1 dsigma theta numPoints 0 []))"

section \<open>dashboard.js: the world copies\<close>

text \<open>
  A Leaflet polyline and circle marker, as the options the source passes and the popup it
  binds; a layer group is the list of its layers in the order they were added. An option
  the caller leaves out is \<open>None\<close>; \<^verbatim>\<open>a || b\<close> takes \<open>b\<close> when \<open>a\<close> is
  undefined, the empty string or 0.
\<close>

record line_options =
  opt_color :: "string option"
  opt_weight :: "real option"
  opt_opacity :: "real option"
  opt_popupContent :: "string option"

record polyline =
  pl_latlngs :: "point list"
  pl_color :: string
  pl_weight :: real
  pl_opacity :: real
  pl_smoothFactor :: real
  pl_interactive :: bool
  pl_popup :: "string option"

record marker_options =
  mo_radius :: "real option"
  mo_color :: "string option"
  mo_fillColor :: "string option"
  mo_fillOpacity :: "real option"
  mo_weight :: "real option"

record circleMarker =
  cm_latlng :: point
  cm_radius :: real
  cm_color :: string
  cm_fillColor :: string
  cm_fillOpacity :: real
  cm_weight :: real
  cm_interactive :: bool
  cm_popup :: "string option"

definition or_string :: "string option \<Rightarrow> string \<Rightarrow> string" where
  "or_string a b = (case a of None \<Rightarrow> b | Some s \<Rightarrow> if s = [] then b else s)"

definition or_number :: "real option \<Rightarrow> real \<Rightarrow> real" where
  "or_number a b = (case a of None \<Rightarrow> b | Some x \<Rightarrow> if x = 0 then b else x)"

text \<open>
  The polyline the source builds for one \<^verbatim>\<open>offset\<close> inside
  \<^verbatim>\<open>segments.forEach\<close>, with the popup it binds to the primary one, and the loop
  over \<^verbatim>\<open>offset\<close>.
\<close>

definition offset_line :: "line_options \<Rightarrow> point list \<Rightarrow> nat \<Rightarrow> int \<Rightarrow> polyline" where
  "offset_line options segment segmentIndex offset =
     (let offsetSegment = map (\<lambda>point. (fst point, snd point + of_int offset)) segment;
          line = \<lparr>pl_latlngs = offsetSegment,
                  pl_color = or_string (opt_color options) ''#ff4444'',
                  pl_weight = or_number (opt_weight options) 3,
                  pl_opacity = or_number (opt_opacity options) 0.7,
                  pl_smoothFactor = 1.0,
                  pl_interactive = (offset = 0 \<and> segmentIndex = 0),
                  pl_popup = None\<rparr>
      in if offset = 0 \<and> segmentIndex = 0
         then line\<lparr>pl_popup := Some (or_string (opt_popupContent options) ''Flight Path'')\<rparr>
         else line)"

function line_copies ::
  "line_options \<Rightarrow> point list \<Rightarrow> nat \<Rightarrow> int \<Rightarrow> polyline list \<Rightarrow> polyline list" where
  "line_copies options segment segmentIndex offset lineGroup =
     (if offset \<le> 720 then
        line_copies options segment segmentIndex (offset + 360)
          (lineGroup @ [offset_line options segment segmentIndex offset])
      else lineGroup)"
  by pat_completeness auto
termination
  by (relation "measure (\<lambda>(options, segment, segmentIndex, offset, lineGroup). nat (721 - offset))") auto

fun segments_forEach ::
  "line_options \<Rightarrow> point list list \<Rightarrow> nat \<Rightarrow> polyline list \<Rightarrow> polyline list" where
  "segments_forEach options [] segmentIndex lineGroup = lineGroup"
| "segments_forEach options (segment # rest) segmentIndex lineGroup =
     segments_forEach options rest (segmentIndex + 1)
       (line_copies options segment segmentIndex (- 720) lineGroup)"

definition createInfiniteGeodesicLine ::
  "math \<Rightarrow> point \<Rightarrow> point \<Rightarrow> line_options \<Rightarrow> polyline list" where
  "createInfiniteGeodesicLine M origin dest options =
     (case origin of (lat1, lon1) \<Rightarrow>
      case dest of (lat2, lon2) \<Rightarrow>
        (let geodesicPoints = calculateGeodesicPoints M lat1 lon1 lat2 lon2 100;
             segments = splitAtAntimeridian geodesicPoints
         in segments_forEach options segments 0 []))"

text \<open>The circle marker for one \<^verbatim>\<open>offset\<close>, and the loop over \<^verbatim>\<open>offset\<close>.\<close>

definition offset_marker :: "point \<Rightarrow> marker_options \<Rightarrow> string \<Rightarrow> int \<Rightarrow> circleMarker" where
  "offset_marker latlng options popupContent offset =
     (case latlng of (lat, lon) \<Rightarrow>
        (let marker = \<lparr>cm_latlng = (lat, lon + of_int offset),
                       cm_radius = or_number (mo_radius options) 8,
                       cm_color = or_string (mo_color options) ''#0066cc'',
                       cm_fillColor = or_string (mo_fillColor options) ''#0066cc'',
                       cm_fillOpacity = or_number (mo_fillOpacity options) 0.8,
                       cm_weight = or_number (mo_weight options) 2,
                       cm_interactive = (offset = 0),
                       cm_popup = None\<rparr>
         in if offset = 0 \<and> popupContent \<noteq> []
            then marker\<lparr>cm_popup := Some popupContent\<rparr> else marker))"

function marker_copies ::
  "point \<Rightarrow> marker_options \<Rightarrow> string \<Rightarrow> int \<Rightarrow> circleMarker list \<Rightarrow> circleMarker list" where
  "marker_copies latlng options popupContent offset markerGroup =
     (if offset \<le> 720 then
        marker_copies latlng options popupContent (offset + 360)
          (markerGroup @ [offset_marker latlng options popupContent offset])
      else markerGroup)"
  by pat_completeness auto
termination
  by (relation "measure (\<lambda>(latlng, options, popupContent, offset, markerGroup). nat (721 - offset))") auto

definition createInfiniteMarker ::
  "point \<Rightarrow> marker_options \<Rightarrow> string \<Rightarrow> circleMarker list" where
  "createInfiniteMarker latlng options popupContent =
     marker_copies latlng options popupContent (- 720) []"

section \<open>geodesic.js: the class GeodesicLine\<close>

text \<open>
  The central angle of \<^verbatim>\<open>calculateGreatCircle\<close>: the argument goes to
  \<^verbatim>\<open>Math.acos\<close> as computed, and the result may be not-a-number.
\<close>

definition great_circle_angle :: "math \<Rightarrow> real \<Rightarrow> real \<Rightarrow> real \<Rightarrow> real option" where
  "great_circle_angle M phi1 phi2 dlam =
     js_acos M (m_sin M phi1 * m_sin M phi2 + m_cos M phi1 * m_cos M phi2 * m_cos M dlam)"

text \<open>The two loops that bring a longitude back into \<open>[-180, 180]\<close>.\<close>

function normalize_above :: "real \<Rightarrow> real" where
  "normalize_above lon = (if lon > 180 then normalize_above (lon - 360) else lon)"
  by pat_completeness auto
termination
proof (relation "measure (\<lambda>lon. nat \<lceil>(lon - 180) / 360\<rceil>)")
  show "wf (measure (\<lambda>lon. nat \<lceil>(lon - 180) / 360\<rceil>))" by simp
next
  fix lon :: real
  assume "180 < lon"
  then have "0 < \<lceil>(lon - 180) / 360\<rceil>" by (simp add: less_ceiling_iff)
  moreover have "\<lceil>(lon - 360 - 180) / 360\<rceil> = \<lceil>(lon - 180) / 360\<rceil> - 1"
  proof -
    have "(lon - 360 - 180) / 360 = (lon - 180) / 360 - 1" by (simp add: field_simps)
    then show ?thesis by (simp only: ceiling_diff_one)
  qed
  ultimately show "(lon - 360, lon) \<in> measure (\<lambda>lon. nat \<lceil>(lon - 180) / 360\<rceil>)" by simp
qed

function normalize_below :: "real \<Rightarrow> real" where
  "normalize_below lon = (if lon < - 180 then normalize_below (lon + 360) else lon)"
  by pat_completeness auto
termination
proof (relation "measure (\<lambda>lon. nat \<lceil>(- 180 - lon) / 360\<rceil>)")
  show "wf (measure (\<lambda>lon. nat \<lceil>(- 180 - lon) / 360\<rceil>))" by simp
next
  fix lon :: real
  assume "lon < - 180"
  then have "0 < \<lceil>(- 180 - lon) / 360\<rceil>" by (simp add: less_ceiling_iff)
  moreover have "\<lceil>(- 180 - (lon + 360)) / 360\<rceil> = \<lceil>(- 180 - lon) / 360\<rceil> - 1"
  proof -
    have "(- 180 - (lon + 360)) / 360 = (- 180 - lon) / 360 - 1" by (simp add: field_simps)
    then show ?thesis by (simp only: ceiling_diff_one)
  qed
  ultimately show "(lon + 360, lon) \<in> measure (\<lambda>lon. nat \<lceil>(- 180 - lon) / 360\<rceil>)" by simp
qed

text \<open>
  The body of the loop of \<^verbatim>\<open>calculateGreatCircle\<close> at index \<open>i\<close>. Where
  \<^verbatim>\<open>Math.sin(\<Delta>\<sigma>)\<close> is 0 the source divides by zero; HOL's quotient is 0 there.
\<close>

definition great_circle_point ::
  "math \<Rightarrow> real \<Rightarrow> real \<Rightarrow> real \<Rightarrow> real \<Rightarrow> real \<Rightarrow> nat \<Rightarrow> nat \<Rightarrow> point" where
  "great_circle_point M phi1 lam1 phi2 lam2 dsigma numPoints i =
     (let fraction = real i / real numPoints;
          A = m_sin M ((1 - fraction) * dsigma) / m_sin M dsigma;
          B = m_sin M (fraction * dsigma) / m_sin M dsigma;
          x = A * m_cos M phi1 * m_cos M lam1 + B * m_cos M phi2 * m_cos M lam2;
          y = A * m_cos M phi1 * m_sin M lam1 + B * m_cos M phi2 * m_sin M lam2;
          z = A * m_sin M phi1 + B * m_sin M phi2;
          phi_i = m_atan2 M z (m_sqrt M (x * x + y * y));
          lam_i = m_atan2 M y x;
          lat = phi_i * 180 / PI M;
          lon = normalize_below (normalize_above (lam_i * 180 / PI M))
      in (lat, lon))"

function great_circle_loop ::
  "math \<Rightarrow> real \<Rightarrow> real \<Rightarrow> real \<Rightarrow> real \<Rightarrow> real \<Rightarrow> nat \<Rightarrow> nat \<Rightarrow> point list \<Rightarrow> point list" where
  "great_circle_loop M phi1 lam1 phi2 lam2 dsigma numPoints i points =
     (if i \<le> numPoints then
        great_circle_loop M phi1 lam1 phi2 lam2 dsigma numPoints (i + 1)
          (points @ [great_circle_point M phi1 lam1 phi2 lam2 dsigma numPoints i])
      else points)"
  by pat_completeness auto
termination
  by (relation "measure (\<lambda>(M, phi1, lam1, phi2, lam2, dsigma, numPoints, i, points). Suc numPoints - i)") auto

definition calculateGreatCircle ::
  "math \<Rightarrow> real \<Rightarrow> real \<Rightarrow> real \<Rightarrow> real \<Rightarrow> nat \<Rightarrow> point list" where
  "calculateGreatCircle M lat1 lon1 lat2 lon2 numPoints =
     (let phi1 = lat1 * PI M / 180;
          lam1 = lon1 * PI M / 180;
          phi2 = lat2 * PI M / 180;
          lam2 = lon2 * PI M / 180;
          dlam = lam2 - lam1
      in case great_circle_angle M phi1 phi2 dlam of
           None \<Rightarrow> [(lat1, lon1), (lat2, lon2)]
         | Some dsigma \<Rightarrow>
             if dsigma < 0.001 then [(lat1, lon1), (lat2, lon2)]
             else great_circle_loop M phi1 lam1 phi2 lam2 dsigma numPoints 0 [])"

text \<open>
  The class's own splitAtAntimeridian. \<^verbatim>\<open>result[currentSegment.length - 1]?.push(...)\<close>
  appends the break point to the element of \<^verbatim>\<open>result\<close> at that index, and does nothing
  when \<^verbatim>\<open>result\<close> has no such element.
\<close>

fun GeodesicLine_split_loop ::
  "point list \<Rightarrow> point list list \<Rightarrow> point list \<Rightarrow> point list list \<times> point list" where
  "GeodesicLine_split_loop [] result currentSegment = (result, currentSegment)"
| "GeodesicLine_split_loop ((lat, lon) # rest) result currentSegment =
     (if length currentSegment = 0 then
        GeodesicLine_split_loop rest result (currentSegment @ [(lat, lon)])
      else
        (case last currentSegment of (prevLat, prevLon) \<Rightarrow>
           if \<bar>lon - prevLon\<bar> > 180 then
             (let pushed = result @ [currentSegment];
                  fraction = (180 - \<bar>prevLon\<bar>) / \<bar>lon - prevLon\<bar>;
                  midLat = prevLat + (lat - prevLat) * fraction;
                  midLon = (if prevLon > 0 then 180 else - 180);
                  k = length currentSegment - 1;
                  broken = (if k < length pushed
                            then pushed[k := pushed ! k @ [(midLat, midLon)]] else pushed)
              in GeodesicLine_split_loop rest broken [(midLat, - midLon), (lat, lon)])
           else GeodesicLine_split_loop rest result (currentSegment @ [(lat, lon)])))"

text \<open>
  The class returns a flat list of points: the only segment, or \<^verbatim>\<open>result.flat()\<close>.
\<close>

definition GeodesicLine_splitAtAntimeridian :: "point list \<Rightarrow> point list" where
  "GeodesicLine_splitAtAntimeridian points =
     (case GeodesicLine_split_loop points [] [] of
        (result, currentSegment) \<Rightarrow>
          (let pushed = (if length currentSegment > 0 then result @ [currentSegment] else result)
           in if length pushed = 1 then pushed ! 0 else concat pushed))"

definition createFlightPath :: "math \<Rightarrow> point \<Rightarrow> point \<Rightarrow> point list" where
  "createFlightPath M origin destination =
     (case origin of (lat1, lon1) \<Rightarrow>
      case destination of (lat2, lon2) \<Rightarrow>
        (let lonDiff = \<bar>lon2 - lon1\<bar>
         in if lonDiff > 180 then
              GeodesicLine_splitAtAntimeridian (calculateGreatCircle M lat1 lon1 lat2 lon2 100)
            else calculateGreatCircle M lat1 lon1 lat2 lon2 30))"

section \<open>Notions the properties are stated with\<close>

text \<open>No two adjacent points of the sequence differ in longitude by more than 180 degrees.\<close>

fun no_jump :: "point list \<Rightarrow> bool" where
  "no_jump [] = True"
| "no_jump [p] = True"
| "no_jump (p # q # rest) = (\<bar>snd q - snd p\<bar> \<le> 180 \<and> no_jump (q # rest))"


definition in_range :: "point \<Rightarrow> bool" where
  "in_range p = (- 180 \<le> snd p \<and> snd p \<le> 180)"

text \<open>The two points the dashboard's loop inserts at a crossing between \<open>prev\<close> and \<open>p\<close>.\<close>

definition crossing_point :: "point \<Rightarrow> point \<Rightarrow> point" where
  "crossing_point prev p =
     (fst prev + (fst p - fst prev) * ((180 - \<bar>snd prev\<bar>) / \<bar>snd p - snd prev\<bar>),
      if snd prev > 0 then 179.999 else - 179.999)"

definition mirror_point :: "point \<Rightarrow> point \<Rightarrow> point" where
  "mirror_point prev p =
     (fst prev + (fst p - fst prev) * ((180 - \<bar>snd prev\<bar>) / \<bar>snd p - snd prev\<bar>),
      if snd prev > 0 then - 179.999 else 179.999)"

text \<open>
  The central angle each interpolation computes for two endpoints given in degrees:
  calculateGeodesicPoints after its choice of the wrap direction, calculateGreatCircle from
  the longitudes as they are.
\<close>

definition dashboard_angle :: "math \<Rightarrow> real \<Rightarrow> real \<Rightarrow> real \<Rightarrow> real \<Rightarrow> real" where
  "dashboard_angle M lat1 lon1 lat2 lon2 =
     central_angle M (lat1 * (PI M / 180)) (lat2 * (PI M / 180))
       (wrap_direction M (lon1 * (PI M / 180)) (lon2 * (PI M / 180)) - lon1 * (PI M / 180))"

definition class_angle :: "math \<Rightarrow> real \<Rightarrow> real \<Rightarrow> real \<Rightarrow> real \<Rightarrow> real option" where
  "class_angle M lat1 lon1 lat2 lon2 =
     great_circle_angle M (lat1 * PI M / 180) (lat2 * PI M / 180)
       (lon2 * PI M / 180 - lon1 * PI M / 180)"

text \<open>The second longitude, in degrees, after the choice of the wrap direction.\<close>

definition wrapped_lon :: "real \<Rightarrow> real \<Rightarrow> real" where
  "wrapped_lon lon1 lon2 =
     (if \<bar>lon2 - lon1\<bar> > 180 then (if lon2 - lon1 > 0 then lon2 - 360 else lon2 + 360)
      else lon2)"

text \<open>
  The quantities of the spherical triangle, in radians: the cosine of the central angle
  and the two arguments of the initial bearing.
\<close>

definition cos_angle :: "real \<Rightarrow> real \<Rightarrow> real \<Rightarrow> real" where
  "cos_angle phi1 phi2 dlam = sin phi1 * sin phi2 + cos phi1 * cos phi2 * cos dlam"

definition bearing_x :: "real \<Rightarrow> real \<Rightarrow> real \<Rightarrow> real" where
  "bearing_x phi1 phi2 dlam = cos phi1 * sin phi2 - sin phi1 * cos phi2 * cos dlam"

definition bearing_y :: "real \<Rightarrow> real \<Rightarrow> real" where
  "bearing_y phi2 dlam = sin dlam * cos phi2"

section \<open>The dashboard's split\<close>

lemma split_loop_first: "split_loop (p # ps) segs [] = split_loop ps segs [p]"
  by (cases p) simp

lemma split_loop_same:
  "cur \<noteq> [] \<Longrightarrow> \<not> \<bar>snd p - snd (last cur)\<bar> > 180 \<Longrightarrow>
   split_loop (p # ps) segs cur = split_loop ps segs (cur @ [p])"
  by (cases p; cases "last cur") simp

lemma split_loop_cross:
  "cur \<noteq> [] \<Longrightarrow> \<bar>snd p - snd (last cur)\<bar> > 180 \<Longrightarrow>
   split_loop (p # ps) segs cur =
     split_loop ps (segs @ [cur @ [crossing_point (last cur) p]]) [mirror_point (last cur) p, p]"
  by (cases p; cases "last cur") (simp add: Let_def crossing_point_def mirror_point_def)

declare split_loop.simps(2) [simp del]


lemma split_loop_no_jump:
  "cur \<noteq> [] \<Longrightarrow> no_jump (last cur # ps) \<Longrightarrow> split_loop ps segs cur = (segs, cur @ ps)"
proof (induction ps arbitrary: cur)
  case Nil
  then show ?case by simp
next
  case (Cons p ps)
  from Cons.prems have n: "\<not> \<bar>snd p - snd (last cur)\<bar> > 180" and nj: "no_jump (p # ps)"
    by auto
  then show ?case
    using Cons.prems(1) Cons.IH[of "cur @ [p]"] by (simp add: split_loop_same)
qed

lemma split_loop_append:
  "split_loop (xs @ ys) segs cur =
     (case split_loop xs segs cur of (segs', cur') \<Rightarrow> split_loop ys segs' cur')"
proof (induction xs arbitrary: segs cur)
  case Nil
  then show ?case by simp
next
  case (Cons p xs)
  show ?case
  proof (cases "cur = []")
    case True
    then show ?thesis using Cons.IH by (simp add: split_loop_first)
  next
    case False
    show ?thesis
    proof (cases "\<bar>snd p - snd (last cur)\<bar> > 180")
      case True
      show ?thesis
        using Cons.IH by (simp add: split_loop_cross[OF False True])
    next
      case no: False
      then show ?thesis
        using Cons.IH by (simp add: split_loop_same[OF False])
    qed
  qed
qed

lemma split_loop_current:
  "ps \<noteq> [] \<or> cur \<noteq> [] \<Longrightarrow>
   snd (split_loop ps segs cur) \<noteq> [] \<and>
   last (snd (split_loop ps segs cur)) = last (cur @ ps)"
proof (induction ps arbitrary: segs cur)
  case Nil
  then show ?case by simp
next
  case (Cons p ps)
  show ?case
  proof (cases "cur = []")
    case True
    then show ?thesis using Cons.IH[of "[p]" segs] by (simp add: split_loop_first)
  next
    case False
    show ?thesis
    proof (cases "\<bar>snd p - snd (last cur)\<bar> > 180")
      case True
      show ?thesis
        unfolding split_loop_cross[OF False True]
        using Cons.IH[of "[mirror_point (last cur) p, p]"]
        by simp
    next
      case no: False
      then show ?thesis
        using Cons.IH[of "cur @ [p]" segs] by (simp add: split_loop_same[OF False])
    qed
  qed
qed

text \<open>The segments the loop returns once the current one is pushed.\<close>

lemma split_loop_prefix:
  "cur \<noteq> [] \<Longrightarrow>
   \<exists>tail more. fst (split_loop ps segs cur) @ [snd (split_loop ps segs cur)]
      = segs @ (cur @ tail) # more"
proof (induction ps arbitrary: segs cur)
  case Nil
  then show ?case by simp
next
  case (Cons p ps)
  show ?case
  proof (cases "\<bar>snd p - snd (last cur)\<bar> > 180")
    case True
    define closed where "closed = cur @ [crossing_point (last cur) p]"
    define new where "new = [mirror_point (last cur) p, p]"
    have "new \<noteq> []" by (simp add: new_def)
    then obtain tail more where
      "fst (split_loop ps (segs @ [closed]) new) @ [snd (split_loop ps (segs @ [closed]) new)]
         = (segs @ [closed]) @ (new @ tail) # more"
      using Cons.IH[of new "segs @ [closed]"] by blast
    then have "fst (split_loop (p # ps) segs cur) @ [snd (split_loop (p # ps) segs cur)]
         = segs @ (cur @ [crossing_point (last cur) p]) # ((new @ tail) # more)"
      unfolding split_loop_cross[OF Cons.prems True] closed_def new_def by simp
    then show ?thesis by blast
  next
    case no: False
    obtain tail more where
      "fst (split_loop ps segs (cur @ [p])) @ [snd (split_loop ps segs (cur @ [p]))]
         = segs @ ((cur @ [p]) @ tail) # more"
      using Cons.IH[of "cur @ [p]" segs] by blast
    then have "fst (split_loop (p # ps) segs cur) @ [snd (split_loop (p # ps) segs cur)]
         = segs @ (cur @ (p # tail)) # more"
      by (simp add: split_loop_same[OF Cons.prems no])
    then show ?thesis by blast
  qed
qed

text \<open>
  C2. When the dashboard's split meets a crossing between the last point of \<open>pre\<close> and
  the next point \<open>(lat, lon)\<close>, the output holds the current segment closed by the
  crossing point, whose longitude is 179.999 when the previous longitude is positive and
  -179.999 otherwise, and right after it a segment that starts with the mirrored point of
  the opposite sign followed by \<open>(lat, lon)\<close>.
\<close>

theorem C2_crossing_point_and_mirror:
  assumes "pre \<noteq> []" and "last pre = (prevLat, prevLon)" and "\<bar>lon - prevLon\<bar> > 180"
  shows "\<exists>segments currentSegment tail more.
           split_loop pre [] [] = (segments, currentSegment) \<and>
           splitAtAntimeridian (pre @ (lat, lon) # post) =
             segments
             @ (currentSegment @
                  [(prevLat + (lat - prevLat) * ((180 - \<bar>prevLon\<bar>) / \<bar>lon - prevLon\<bar>),
                    if prevLon > 0 then 179.999 else - 179.999)])
             # ((prevLat + (lat - prevLat) * ((180 - \<bar>prevLon\<bar>) / \<bar>lon - prevLon\<bar>),
                  if prevLon > 0 then - 179.999 else 179.999) # (lat, lon) # tail)
             # more"
proof -
  obtain segs cur where s: "split_loop pre [] [] = (segs, cur)" by (cases "split_loop pre [] []")
  have c: "cur \<noteq> []" and l: "last cur = (prevLat, prevLon)"
    using split_loop_current[of pre "[]" "[]"] assms(1,2) s by auto
  define closed where "closed = cur @ [crossing_point (last cur) (lat, lon)]"
  define new where "new = [mirror_point (last cur) (lat, lon), (lat, lon)]"
  have x: "\<bar>snd (lat, lon) - snd (last cur)\<bar> > 180" using assms(3) l by simp
  have st: "split_loop (pre @ (lat, lon) # post) [] [] = split_loop post (segs @ [closed]) new"
    by (simp add: split_loop_append s split_loop_cross[OF c x] closed_def new_def)
  have ne: "snd (split_loop post (segs @ [closed]) new) \<noteq> []"
    using split_loop_current[of post new "segs @ [closed]"] by (simp add: new_def)
  have "new \<noteq> []" by (simp add: new_def)
  then obtain tail more where
    "fst (split_loop post (segs @ [closed]) new) @ [snd (split_loop post (segs @ [closed]) new)]
       = (segs @ [closed]) @ (new @ tail) # more"
    using split_loop_prefix[of new post "segs @ [closed]"] by blast
  then have "splitAtAntimeridian (pre @ (lat, lon) # post) =
      segs @ (cur @ [crossing_point (prevLat, prevLon) (lat, lon)])
        # (mirror_point (prevLat, prevLon) (lat, lon) # (lat, lon) # tail) # more"
    using ne by (simp add: splitAtAntimeridian_def st split_beta closed_def new_def l)
  with s show ?thesis unfolding crossing_point_def mirror_point_def fst_conv snd_conv by blast
qed

theorem C2_crossing_witness:
  "[(10, 170)] \<noteq> ([] :: point list) \<and> last [(10, 170)] = (10 :: real, 170 :: real) \<and>
   \<bar>(- 170 :: real) - 170\<bar> > 180 \<and>
   splitAtAntimeridian ([(10, 170)] @ (20, - 170) # []) =
     [[(10, 170), (175 / 17, 179.999)], [(175 / 17, - 179.999), (20, - 170)]]"
  using C2_crossing_point_and_mirror[of "[(10, 170)]" 10 170 "- 170" 20 "[]"]
  by (simp add: splitAtAntimeridian_def split_loop.simps Let_def)








lemma split_no_jump_single:
  "ps \<noteq> [] \<Longrightarrow> no_jump ps \<Longrightarrow> splitAtAntimeridian ps = [ps]"
proof (cases ps)
  case Nil
  assume "ps \<noteq> []"
  with Nil show ?thesis by simp
next
  case (Cons p rest)
  assume "no_jump ps"
  then show ?thesis
    using split_loop_no_jump[of "[p]" rest "[]"]
    by (simp add: Cons splitAtAntimeridian_def split_loop_first)
qed




section \<open>The interpolation loops\<close>

declare geodesic_loop.simps [simp del] great_circle_loop.simps [simp del]
  line_copies.simps [simp del] marker_copies.simps [simp del]

lemma geodesic_loop_map:
  "geodesic_loop M phi1 lam1 dsigma theta n i points =
     points @ map (geodesic_point M phi1 lam1 dsigma theta n) [i..<Suc n]"
proof (induction M phi1 lam1 dsigma theta n i points rule: geodesic_loop.induct)
  case (1 M phi1 lam1 dsigma theta n i points)
  show ?case
  proof (cases "i \<le> n")
    case True
    then have "[i..<Suc n] = i # [Suc i..<Suc n]" by (simp add: upt_conv_Cons)
    then show ?thesis
      using 1[OF True] True by (subst geodesic_loop.simps) simp
  next
    case False
    then show ?thesis by (subst geodesic_loop.simps) simp
  qed
qed

lemma great_circle_loop_map:
  "great_circle_loop M phi1 lam1 phi2 lam2 dsigma n i points =
     points @ map (great_circle_point M phi1 lam1 phi2 lam2 dsigma n) [i..<Suc n]"
proof (induction M phi1 lam1 phi2 lam2 dsigma n i points rule: great_circle_loop.induct)
  case (1 M phi1 lam1 phi2 lam2 dsigma n i points)
  show ?case
  proof (cases "i \<le> n")
    case True
    then have "[i..<Suc n] = i # [Suc i..<Suc n]" by (simp add: upt_conv_Cons)
    then show ?thesis
      using 1[OF True] True by (subst great_circle_loop.simps) simp
  next
    case False
    then show ?thesis by (subst great_circle_loop.simps) simp
  qed
qed

lemma calculateGeodesicPoints_length:
  "length (calculateGeodesicPoints M lat1 lon1 lat2 lon2 n) =
     (if central_angle M (lat1 * (PI M / 180)) (lat2 * (PI M / 180))
           (wrap_direction M (lon1 * (PI M / 180)) (lon2 * (PI M / 180)) - lon1 * (PI M / 180)) < 0.001
      then 2 else n + 1)"
  by (simp add: calculateGeodesicPoints_def Let_def geodesic_loop_map)

lemma calculateGeodesicPoints_nonempty: "calculateGeodesicPoints M lat1 lon1 lat2 lon2 n \<noteq> []"
  using calculateGeodesicPoints_length[of M lat1 lon1 lat2 lon2 n]
  by (auto split: if_splits)

lemma splitAtAntimeridian_nonempty: "ps \<noteq> [] \<Longrightarrow> splitAtAntimeridian ps \<noteq> []"
  using split_loop_current[of ps "[]" "[]"]
  by (simp add: splitAtAntimeridian_def split_beta)

section \<open>The world copies\<close>

lemma line_copies_eval:
  "line_copies options segment k (- 720) lineGroup =
     lineGroup @ map (offset_line options segment k) [- 720, - 360, 0, 360, 720]"
  by (simp add: line_copies.simps[of _ _ _ "- 720"] line_copies.simps[of _ _ _ "- 360"]
      line_copies.simps[of _ _ _ 0] line_copies.simps[of _ _ _ 360]
      line_copies.simps[of _ _ _ 720] line_copies.simps[of _ _ _ 1080])

lemma marker_copies_eval:
  "marker_copies latlng options popupContent (- 720) markerGroup =
     markerGroup @ map (offset_marker latlng options popupContent) [- 720, - 360, 0, 360, 720]"
  by (simp add: marker_copies.simps[of _ _ _ "- 720"] marker_copies.simps[of _ _ _ "- 360"]
      marker_copies.simps[of _ _ _ 0] marker_copies.simps[of _ _ _ 360]
      marker_copies.simps[of _ _ _ 720] marker_copies.simps[of _ _ _ 1080])

lemma segments_forEach_eval:
  "segments_forEach options segments k lineGroup =
     lineGroup @ concat (map (\<lambda>(i, segment).
                           map (offset_line options segment i) [- 720, - 360, 0, 360, 720])
                       (enumerate k segments))"
proof (induction segments arbitrary: k lineGroup)
  case Nil
  then show ?case by simp
next
  case (Cons segment rest)
  show ?case
    using Cons.IH[of "Suc k"] by (simp add: line_copies_eval)
qed

lemma offset_line_fields:
  "pl_latlngs (offset_line options segment i offset) =
     map (\<lambda>(lat, lon). (lat, lon + of_int offset)) segment"
  "pl_interactive (offset_line options segment i offset) = (offset = 0 \<and> i = 0)"
  "pl_popup (offset_line options segment i offset) =
     (if offset = 0 \<and> i = 0
      then Some (or_string (opt_popupContent options) ''Flight Path'') else None)"
  by (simp_all add: offset_line_def Let_def split_def)

lemma offset_marker_fields:
  "cm_latlng (offset_marker (lat, lon) options popupContent offset) = (lat, lon + of_int offset)"
  "cm_interactive (offset_marker (lat, lon) options popupContent offset) = (offset = 0)"
  by (simp_all add: offset_marker_def Let_def)

lemma replicate_five: "replicate (5 + n) x = x # x # x # x # x # replicate n x"
  by (simp add: replicate_add eval_nat_numeral)

lemma secondary_latlngs:
  "map pl_latlngs (concat (map (\<lambda>(i, segment).
        map (offset_line options segment i) [- 720, - 360, 0, 360, 720])
      (enumerate k segments))) =
   concat (map (\<lambda>segment. map (\<lambda>offset. map (\<lambda>(lat, lon). (lat, lon + offset)) segment)
                                [- 720, - 360, 0, 360, 720]) segments)"
proof (induction segments arbitrary: k)
  case Nil
  then show ?case by simp
next
  case (Cons segment rest)
  show ?case
    using Cons.IH[of "Suc k"] by (simp add: offset_line_fields)
qed

lemma secondary_flags:
  "0 < k \<Longrightarrow>
   map pl_interactive (concat (map (\<lambda>(i, segment).
        map (offset_line options segment i) [- 720, - 360, 0, 360, 720])
      (enumerate k segments))) = replicate (5 * length segments) False \<and>
   map pl_popup (concat (map (\<lambda>(i, segment).
        map (offset_line options segment i) [- 720, - 360, 0, 360, 720])
      (enumerate k segments))) = replicate (5 * length segments) None"
proof (induction segments arbitrary: k)
  case Nil
  then show ?case by simp
next
  case (Cons segment rest)
  show ?case
    using Cons.IH[of "Suc k"] Cons.prems by (simp add: offset_line_fields replicate_five)
qed

lemma primary_flags:
  "segments \<noteq> [] \<Longrightarrow>
   map pl_interactive (segments_forEach options segments 0 []) =
     [False, False, True, False, False] @ replicate (5 * (length segments - 1)) False \<and>
   map pl_popup (segments_forEach options segments 0 []) =
     [None, None, Some (or_string (opt_popupContent options) ''Flight Path''), None, None]
       @ replicate (5 * (length segments - 1)) None"
proof (cases segments)
  case Nil
  assume "segments \<noteq> []"
  with Nil show ?thesis by simp
next
  case (Cons segment rest)
  show ?thesis
    using secondary_flags[of "Suc 0" options rest]
    by (simp add: Cons segments_forEach_eval offset_line_fields)
qed

text \<open>
  C5. Replication over the offsets -720, -360, 0, 360, 720: the layer group of a path
  holds 5 polylines per segment, each the segment with the offset added to every longitude
  and the latitudes as they are, and exactly one of them, the offset-0 copy of the first
  segment, is interactive and carries the popup; a marker gets 5 copies at the shifted
  longitudes, of which the offset-0 copy alone is interactive.
\<close>

theorem C5_world_copies:
  "length (createInfiniteGeodesicLine M (lat1, lon1) (lat2, lon2) options) =
     5 * length (splitAtAntimeridian (calculateGeodesicPoints M lat1 lon1 lat2 lon2 100)) \<and>
   map pl_latlngs (createInfiniteGeodesicLine M (lat1, lon1) (lat2, lon2) options) =
     concat (map (\<lambda>segment. map (\<lambda>offset. map (\<lambda>(lat, lon). (lat, lon + offset)) segment)
                                  [- 720, - 360, 0, 360, 720])
               (splitAtAntimeridian (calculateGeodesicPoints M lat1 lon1 lat2 lon2 100))) \<and>
   map pl_interactive (createInfiniteGeodesicLine M (lat1, lon1) (lat2, lon2) options) =
     [False, False, True, False, False]
       @ replicate (5 * (length (splitAtAntimeridian
                                  (calculateGeodesicPoints M lat1 lon1 lat2 lon2 100)) - 1)) False \<and>
   map pl_popup (createInfiniteGeodesicLine M (lat1, lon1) (lat2, lon2) options) =
     [None, None, Some (or_string (opt_popupContent options) ''Flight Path''), None, None]
       @ replicate (5 * (length (splitAtAntimeridian
                                  (calculateGeodesicPoints M lat1 lon1 lat2 lon2 100)) - 1)) None \<and>
   map cm_latlng (createInfiniteMarker (lat, lon) marker popupContent) =
     map (\<lambda>offset. (lat, lon + offset)) [- 720, - 360, 0, 360, 720] \<and>
   map cm_interactive (createInfiniteMarker (lat, lon) marker popupContent) =
     [False, False, True, False, False]"
proof -
  define segments where
    "segments = splitAtAntimeridian (calculateGeodesicPoints M lat1 lon1 lat2 lon2 100)"
  have ne: "segments \<noteq> []"
    unfolding segments_def
    by (intro splitAtAntimeridian_nonempty calculateGeodesicPoints_nonempty)
  have c: "createInfiniteGeodesicLine M (lat1, lon1) (lat2, lon2) options =
             segments_forEach options segments 0 []"
    by (simp add: createInfiniteGeodesicLine_def segments_def)
  have 1: "length (segments_forEach options segments 0 []) = 5 * length segments"
    by (simp add: segments_forEach_eval length_concat o_def split_def sum_list_triv)
  have 2: "map pl_latlngs (segments_forEach options segments 0 []) =
     concat (map (\<lambda>segment. map (\<lambda>offset. map (\<lambda>(lat, lon). (lat, lon + offset)) segment)
                                  [- 720, - 360, 0, 360, 720]) segments)"
    using secondary_latlngs[of options 0 segments] by (simp add: segments_forEach_eval)
  have 3: "map cm_latlng (createInfiniteMarker (lat, lon) marker popupContent) =
     map (\<lambda>offset. (lat, lon + offset)) [- 720, - 360, 0, 360, 720]"
    by (simp add: createInfiniteMarker_def marker_copies_eval offset_marker_fields)
  have 4: "map cm_interactive (createInfiniteMarker (lat, lon) marker popupContent) =
     [False, False, True, False, False]"
    by (simp add: createInfiniteMarker_def marker_copies_eval offset_marker_fields)
  show ?thesis
    unfolding c segments_def[symmetric]
    using 1 2 3 4 primary_flags[OF ne, of options] by simp
qed

section \<open>Exact arithmetic: the arc tangent of two arguments\<close>

lemma exact_math_simps [simp]:
  "PI exact_math = pi" "m_sin exact_math = sin" "m_cos exact_math = cos"
  "m_acos exact_math = arccos" "m_asin exact_math = arcsin"
  "m_atan2 exact_math = atan2" "m_sqrt exact_math = sqrt"
  by (simp_all add: exact_math_def)

lemma atan2_nonneg: "0 \<le> y \<Longrightarrow> 0 \<le> atan2 y x \<and> atan2 y x \<le> pi"
proof -
  assume y: "0 \<le> y"
  consider "0 < x" | "x < 0" | "x = 0" by linarith
  then show ?thesis
  proof cases
    case 1
    then have "0 \<le> y / x" using y by simp
    then have "0 \<le> arctan (y / x)" by simp
    moreover have "arctan (y / x) < pi / 2" by (rule arctan_ubound)
    ultimately have "0 \<le> arctan (y / x) \<and> arctan (y / x) \<le> pi"
      using pi_gt_zero by linarith
    then show ?thesis using 1 by (simp add: atan2_def)
  next
    case 2
    then have "y / x \<le> 0" using y by (simp add: divide_nonneg_neg)
    then have "arctan (y / x) \<le> 0" by simp
    moreover have "- (pi / 2) < arctan (y / x)" by (rule arctan_lbound)
    ultimately have "0 \<le> arctan (y / x) + pi \<and> arctan (y / x) + pi \<le> pi"
      using pi_gt_zero by linarith
    then show ?thesis using 2 y by (simp add: atan2_def)
  next
    case 3
    then show ?thesis using y pi_gt_zero by (simp add: atan2_def)
  qed
qed

lemma atan2_neg: "y < 0 \<Longrightarrow> - pi < atan2 y x \<and> atan2 y x < 0"
proof -
  assume y: "y < 0"
  consider "0 < x" | "x < 0" | "x = 0" by linarith
  then show ?thesis
  proof cases
    case 1
    then have "y / x < 0" using y by (simp add: divide_neg_pos)
    then have "arctan (y / x) < 0" by simp
    moreover have "- (pi / 2) < arctan (y / x)" by (rule arctan_lbound)
    ultimately have "- pi < arctan (y / x) \<and> arctan (y / x) < 0"
      using pi_gt_zero by linarith
    then show ?thesis using 1 by (simp add: atan2_def)
  next
    case 2
    then have "0 < y / x" using y by (simp add: divide_neg_neg)
    then have "0 < arctan (y / x)" by simp
    moreover have "arctan (y / x) < pi / 2" by (rule arctan_ubound)
    ultimately have "- pi < arctan (y / x) - pi \<and> arctan (y / x) - pi < 0"
      using pi_gt_zero by linarith
    then show ?thesis using 2 y by (simp add: atan2_def)
  next
    case 3
    then show ?thesis using y pi_gt_zero by (simp add: atan2_def)
  qed
qed

lemma atan2_scale: "0 < k \<Longrightarrow> atan2 (k * y) (k * x) = atan2 y x"
  by (simp add: atan2_def zero_less_mult_iff mult_less_0_iff zero_le_mult_iff)

lemma atan2_sin_cos:
  assumes "- pi < a" and "a \<le> pi"
  shows "atan2 (sin a) (cos a) = a"
proof -
  consider "- (pi / 2) < a \<and> a < pi / 2" | "a = pi / 2" | "a = - (pi / 2)"
    | "pi / 2 < a" | "a < - (pi / 2)" by linarith
  then show ?thesis
  proof cases
    case 1
    then have "0 < cos a" by (simp add: cos_gt_zero_pi)
    moreover have "arctan (tan a) = a" using 1 by (simp add: arctan_tan)
    ultimately show ?thesis by (simp add: atan2_def tan_def)
  next
    case 2
    show ?thesis unfolding 2 by (simp add: atan2_def)
  next
    case 3
    show ?thesis unfolding 3 by (simp add: atan2_def)
  next
    case 4
    define b where "b = a - pi"
    have b: "- (pi / 2) < b" "b \<le> 0" using 4 assms by (simp_all add: b_def)
    have a: "a = b + pi" by (simp add: b_def)
    have "0 < cos b" using b pi_gt_zero by (intro cos_gt_zero_pi) linarith+
    then have c: "cos a < 0" by (simp add: a)
    have "sin b \<le> 0" using b pi_gt_zero sin_ge_zero[of "- b"] by simp
    then have s: "0 \<le> sin a" by (simp add: a)
    have "tan a = tan b" by (simp add: a)
    moreover have "arctan (tan b) = b" using b pi_gt_zero by (intro arctan_tan) linarith+
    ultimately have "arctan (sin a / cos a) = b" by (simp add: tan_def)
    then show ?thesis using c s by (simp add: atan2_def a)
  next
    case 5
    define b where "b = a + pi"
    have b: "0 < b" "b < pi / 2" using 5 assms by (simp_all add: b_def)
    have a: "a = b - pi" by (simp add: b_def)
    have "0 < cos b" using b by (intro cos_gt_zero)
    then have c: "cos a < 0" by (simp add: a)
    have "0 < sin b" using b by (intro sin_gt_zero2)
    then have s: "sin a < 0" by (simp add: a)
    have "tan a = tan b" using tan_periodic_pi[of a] by (simp add: b_def)
    moreover have "arctan (tan b) = b" using b by (intro arctan_tan) linarith+
    ultimately have "arctan (sin a / cos a) = b" by (simp add: tan_def)
    then show ?thesis using c s by (simp add: atan2_def a)
  qed
qed

lemma sqrt_sum_squares_pos: "0 < x \<Longrightarrow> sqrt (x\<^sup>2 + y\<^sup>2) = x * sqrt (1 + (y / x)\<^sup>2)"
proof -
  assume x: "0 < x"
  have "x\<^sup>2 + y\<^sup>2 = x\<^sup>2 * (1 + (y / x)\<^sup>2)"
    using x by (simp add: field_simps power2_eq_square)
  then show ?thesis using x by (simp add: real_sqrt_mult)
qed

lemma sqrt_sum_squares_neg: "x < 0 \<Longrightarrow> sqrt (x\<^sup>2 + y\<^sup>2) = - x * sqrt (1 + (y / x)\<^sup>2)"
  using sqrt_sum_squares_pos[of "- x" "- y"] by simp

lemma sqrt_one_plus_pos: "0 < sqrt (1 + t\<^sup>2)" for t :: real
  by (simp add: add_pos_nonneg)

lemma atan2_polar:
  "sqrt (x\<^sup>2 + y\<^sup>2) * cos (atan2 y x) = x"
  "sqrt (x\<^sup>2 + y\<^sup>2) * sin (atan2 y x) = y"
proof -
  consider "0 < x" | "x < 0" | "x = 0" by linarith
  then have "sqrt (x\<^sup>2 + y\<^sup>2) * cos (atan2 y x) = x \<and> sqrt (x\<^sup>2 + y\<^sup>2) * sin (atan2 y x) = y"
  proof cases
    case 1
    have nz: "sqrt (1 + (y / x)\<^sup>2) \<noteq> 0" using sqrt_one_plus_pos[of "y / x"] by simp
    show ?thesis
      using 1 nz
      by (simp add: atan2_def sqrt_sum_squares_pos cos_arctan sin_arctan)
  next
    case 2
    have nz: "sqrt (1 + (y / x)\<^sup>2) \<noteq> 0" using sqrt_one_plus_pos[of "y / x"] by simp
    show ?thesis
      using 2 nz
      by (simp add: atan2_def sqrt_sum_squares_neg cos_arctan sin_arctan)
  next
    case 3
    then show ?thesis by (simp add: atan2_def)
  qed
  then show "sqrt (x\<^sup>2 + y\<^sup>2) * cos (atan2 y x) = x" "sqrt (x\<^sup>2 + y\<^sup>2) * sin (atan2 y x) = y"
    by simp_all
qed

section \<open>Exact arithmetic: the spherical triangle\<close>

lemma sphere_poly:
  fixes s1 c1 s2 c2 sd cd :: real
  assumes "s1\<^sup>2 + c1\<^sup>2 = 1" and "s2\<^sup>2 + c2\<^sup>2 = 1" and "sd\<^sup>2 + cd\<^sup>2 = 1"
  shows "(c1 * s2 - s1 * c2 * cd)\<^sup>2 + (sd * c2)\<^sup>2 + (s1 * s2 + c1 * c2 * cd)\<^sup>2 = 1"
proof -
  have "(c1 * s2 - s1 * c2 * cd)\<^sup>2 + (sd * c2)\<^sup>2 + (s1 * s2 + c1 * c2 * cd)\<^sup>2
        = (s1\<^sup>2 + c1\<^sup>2) * (s2\<^sup>2 + c2\<^sup>2 * cd\<^sup>2) + sd\<^sup>2 * c2\<^sup>2"
    by (simp add: power2_eq_square algebra_simps)
  also have "\<dots> = 1 * (s2\<^sup>2 + c2\<^sup>2 * cd\<^sup>2) + sd\<^sup>2 * c2\<^sup>2"
    by (simp only: assms(1))
  also have "\<dots> = s2\<^sup>2 + c2\<^sup>2 * (sd\<^sup>2 + cd\<^sup>2)"
    by (simp add: algebra_simps)
  also have "\<dots> = 1"
    by (simp add: assms(2,3))
  finally show ?thesis .
qed

lemma sphere_poly_lat:
  fixes s1 c1 s2 c2 cd :: real
  assumes "s1\<^sup>2 + c1\<^sup>2 = 1"
  shows "s1 * (s1 * s2 + c1 * c2 * cd) + c1 * (c1 * s2 - s1 * c2 * cd) = s2"
proof -
  have "s1 * (s1 * s2 + c1 * c2 * cd) + c1 * (c1 * s2 - s1 * c2 * cd) = (s1\<^sup>2 + c1\<^sup>2) * s2"
    by (simp add: power2_eq_square algebra_simps)
  then show ?thesis by (simp only: assms mult_1)
qed

lemma sphere_identity:
  "(bearing_x phi1 phi2 dlam)\<^sup>2 + (bearing_y phi2 dlam)\<^sup>2 + (cos_angle phi1 phi2 dlam)\<^sup>2 = 1"
  unfolding bearing_x_def bearing_y_def cos_angle_def
  by (rule sphere_poly) simp_all

lemma cos_angle_bounds: "- 1 \<le> cos_angle phi1 phi2 dlam" "cos_angle phi1 phi2 dlam \<le> 1"
proof -
  have "(cos_angle phi1 phi2 dlam)\<^sup>2 \<le> 1"
    using sphere_identity[of phi1 phi2 dlam]
          zero_le_power2[of "bearing_x phi1 phi2 dlam"] zero_le_power2[of "bearing_y phi2 dlam"]
    by linarith
  then have "\<bar>cos_angle phi1 phi2 dlam\<bar> \<le> 1" by (simp add: abs_square_le_1)
  then show "- 1 \<le> cos_angle phi1 phi2 dlam" "cos_angle phi1 phi2 dlam \<le> 1" by linarith+
qed

lemma acos_argument_exact: "acos_argument exact_math phi1 phi2 dlam = cos_angle phi1 phi2 dlam"
  using cos_angle_bounds[of phi1 phi2 dlam]
  by (simp add: acos_argument_def cos_angle_def)

lemma central_angle_exact:
  "central_angle exact_math phi1 phi2 dlam = arccos (cos_angle phi1 phi2 dlam)"
  by (simp add: central_angle_def acos_argument_exact)

lemma central_angle_range:
  "0 \<le> central_angle exact_math phi1 phi2 dlam" "central_angle exact_math phi1 phi2 dlam \<le> pi"
  unfolding central_angle_exact
  using cos_angle_bounds[of phi1 phi2 dlam] by (simp_all add: arccos_lbound arccos_ubound)

lemma cos_central_angle:
  "cos (central_angle exact_math phi1 phi2 dlam) = cos_angle phi1 phi2 dlam"
  unfolding central_angle_exact
  using cos_angle_bounds[of phi1 phi2 dlam] by simp

lemma sin_central_angle:
  "sin (central_angle exact_math phi1 phi2 dlam)
     = sqrt ((bearing_x phi1 phi2 dlam)\<^sup>2 + (bearing_y phi2 dlam)\<^sup>2)"
proof -
  have "sin (arccos (cos_angle phi1 phi2 dlam)) = sqrt (1 - (cos_angle phi1 phi2 dlam)\<^sup>2)"
    using cos_angle_bounds[of phi1 phi2 dlam] by (intro sin_arccos) simp_all
  moreover have "1 - (cos_angle phi1 phi2 dlam)\<^sup>2
      = (bearing_x phi1 phi2 dlam)\<^sup>2 + (bearing_y phi2 dlam)\<^sup>2"
    using sphere_identity[of phi1 phi2 dlam] by linarith
  ultimately show ?thesis by (simp add: central_angle_exact)
qed

lemma initial_bearing_exact:
  "initial_bearing exact_math phi1 phi2 dlam = atan2 (bearing_y phi2 dlam) (bearing_x phi1 phi2 dlam)"
  by (simp add: initial_bearing_def bearing_x_def bearing_y_def)

lemma bearing_components:
  "sin (central_angle exact_math phi1 phi2 dlam) * cos (initial_bearing exact_math phi1 phi2 dlam)
     = bearing_x phi1 phi2 dlam"
  "sin (central_angle exact_math phi1 phi2 dlam) * sin (initial_bearing exact_math phi1 phi2 dlam)
     = bearing_y phi2 dlam"
  unfolding sin_central_angle initial_bearing_exact by (rule atan2_polar)+



lemma geodesic_point_last:
  assumes n: "0 < n"
    and phi2: "- (pi / 2) \<le> phi2" "phi2 \<le> pi / 2"
    and k: "0 < cos phi1 * cos phi2"
    and dlam: "- pi < dlam" "dlam \<le> pi"
  shows "geodesic_point exact_math phi1 lam1 (central_angle exact_math phi1 phi2 dlam)
           (initial_bearing exact_math phi1 phi2 dlam) n n
         = (phi2 * 180 / pi, (lam1 + dlam) * 180 / pi)"
proof -
  define dsigma where "dsigma = central_angle exact_math phi1 phi2 dlam"
  define theta where "theta = initial_bearing exact_math phi1 phi2 dlam"
  have f: "real n / real n * dsigma = dsigma" using n by simp
  have cs: "cos dsigma = cos_angle phi1 phi2 dlam"
    unfolding dsigma_def by (rule cos_central_angle)
  have bx: "sin dsigma * cos theta = bearing_x phi1 phi2 dlam"
    unfolding dsigma_def theta_def by (rule bearing_components)
  have bz: "sin dsigma * sin theta = bearing_y phi2 dlam"
    unfolding dsigma_def theta_def by (rule bearing_components)
  have "sin phi1 * cos dsigma + cos phi1 * sin dsigma * cos theta
          = sin phi1 * cos_angle phi1 phi2 dlam + cos phi1 * (sin dsigma * cos theta)"
    by (simp add: cs)
  also have "\<dots> = sin phi2"
    unfolding bx cos_angle_def bearing_x_def by (rule sphere_poly_lat) simp
  finally have arg: "sin phi1 * cos dsigma + cos phi1 * sin dsigma * cos theta = sin phi2" .
  have lat: "arcsin (sin phi2) = phi2" using phi2 by (rule arcsin_sin)
  have y: "sin theta * sin dsigma * cos phi1 = (cos phi1 * cos phi2) * sin dlam"
    using bz by (simp add: bearing_y_def mult.commute mult.left_commute)
  have x: "cos dsigma - sin phi1 * sin phi2 = (cos phi1 * cos phi2) * cos dlam"
    by (simp add: cs cos_angle_def)
  have lon: "atan2 (sin theta * sin dsigma * cos phi1) (cos dsigma - sin phi1 * sin phi2) = dlam"
    unfolding y x atan2_scale[OF k] using dlam by (rule atan2_sin_cos)
  have "geodesic_point exact_math phi1 lam1 dsigma theta n n
         = (phi2 * 180 / pi, (lam1 + dlam) * 180 / pi)"
    unfolding geodesic_point_def Let_def f exact_math_simps arg lat lon by simp
  then show ?thesis by (simp add: dsigma_def theta_def)
qed

section \<open>The interpolation in degrees\<close>

lemma wrap_direction_same: "wrap_direction M lam lam = lam"
  by (simp add: wrap_direction_def)

lemma wrap_direction_exact:
  "wrap_direction exact_math (lon1 * (pi / 180)) (lon2 * (pi / 180))
     = wrapped_lon lon1 lon2 * (pi / 180)"
proof -
  have d: "(lon2 * (pi / 180) - lon1 * (pi / 180)) * 180 / PI exact_math = lon2 - lon1"
    by (simp add: field_simps)
  have "wrap_direction exact_math (lon1 * (pi / 180)) (lon2 * (pi / 180)) =
     (if \<bar>lon2 - lon1\<bar> > 180
      then (if lon2 - lon1 > 0 then lon2 * (pi / 180) - 2 * pi else lon2 * (pi / 180) + 2 * pi)
      else lon2 * (pi / 180))"
    unfolding wrap_direction_def Let_def d by simp
  moreover have "lon2 * (pi / 180) - 2 * pi = (lon2 - 360) * (pi / 180)"
    by (simp add: algebra_simps)
  moreover have "lon2 * (pi / 180) + 2 * pi = (lon2 + 360) * (pi / 180)"
    by (simp add: algebra_simps)
  ultimately show ?thesis by (simp add: wrapped_lon_def)
qed

lemma calculateGeodesicPoints_cases:
  "calculateGeodesicPoints M lat1 lon1 lat2 lon2 n =
     (if dashboard_angle M lat1 lon1 lat2 lon2 < 0.001 then [(lat1, lon1), (lat2, lon2)]
      else map (geodesic_point M (lat1 * (PI M / 180)) (lon1 * (PI M / 180))
                  (dashboard_angle M lat1 lon1 lat2 lon2)
                  (initial_bearing M (lat1 * (PI M / 180)) (lat2 * (PI M / 180))
                     (wrap_direction M (lon1 * (PI M / 180)) (lon2 * (PI M / 180))
                        - lon1 * (PI M / 180))) n)
             [0..<Suc n])"
  by (simp add: calculateGeodesicPoints_def dashboard_angle_def Let_def geodesic_loop_map)

lemma radians_le: "a \<le> b \<Longrightarrow> a * (pi / 180) \<le> b * (pi / 180)"
  by (simp add: mult_right_mono)

lemma radians_less: "a < b \<Longrightarrow> a * (pi / 180) < b * (pi / 180)"
  by simp

lemma radians_range:
  assumes "- 90 \<le> lat" and "lat \<le> 90"
  shows "- (pi / 2) \<le> lat * (pi / 180) \<and> lat * (pi / 180) \<le> pi / 2"
  using radians_le[OF assms(1)] radians_le[OF assms(2)] by simp

lemma radians_cos_pos:
  assumes "- 90 < lat" and "lat < 90"
  shows "0 < cos (lat * (pi / 180))"
proof -
  have "- (pi / 2) < lat * (pi / 180)" "lat * (pi / 180) < pi / 2"
    using radians_less[OF assms(1)] radians_less[OF assms(2)] by simp_all
  then show ?thesis by (rule cos_gt_zero_pi)
qed



lemma last_point_exact:
  assumes n: "0 < n"
    and lat1: "- 90 < lat1" "lat1 < 90"
    and lat2: "- 90 < lat2" "lat2 < 90"
    and d: "- 180 < wrapped_lon lon1 lon2 - lon1" "wrapped_lon lon1 lon2 - lon1 \<le> 180"
    and big: "\<not> dashboard_angle exact_math lat1 lon1 lat2 lon2 < 0.001"
  shows "last (calculateGeodesicPoints exact_math lat1 lon1 lat2 lon2 n)
           = (lat2, wrapped_lon lon1 lon2)"
proof -
  define phi1 where "phi1 = lat1 * (pi / 180)"
  define phi2 where "phi2 = lat2 * (pi / 180)"
  define lam1 where "lam1 = lon1 * (pi / 180)"
  define dlam where "dlam = wrapped_lon lon1 lon2 * (pi / 180) - lon1 * (pi / 180)"
  have dl: "dlam = (wrapped_lon lon1 lon2 - lon1) * (pi / 180)"
    by (simp add: dlam_def algebra_simps)
  have dr: "- pi < dlam" "dlam \<le> pi"
    unfolding dl using radians_less[OF d(1)] radians_le[OF d(2)] by simp_all
  have r2: "- (pi / 2) \<le> phi2" "phi2 \<le> pi / 2"
    unfolding phi2_def using radians_range[of lat2] lat2 by simp_all
  have k: "0 < cos phi1 * cos phi2"
    unfolding phi1_def phi2_def
    using radians_cos_pos[OF lat1] radians_cos_pos[OF lat2] by simp
  have da: "dashboard_angle exact_math lat1 lon1 lat2 lon2 = central_angle exact_math phi1 phi2 dlam"
    by (simp only: dashboard_angle_def exact_math_simps wrap_direction_exact
        phi1_def phi2_def dlam_def)
  have pt: "geodesic_point exact_math phi1 lam1 (central_angle exact_math phi1 phi2 dlam)
           (initial_bearing exact_math phi1 phi2 dlam) n n
         = (phi2 * 180 / pi, (lam1 + dlam) * 180 / pi)"
    by (rule geodesic_point_last[OF n r2 k dr])
  have lon: "(lam1 + dlam) * 180 / pi = wrapped_lon lon1 lon2"
    by (simp add: lam1_def dlam_def)
  have lat: "phi2 * 180 / pi = lat2" by (simp add: phi2_def)
  have "calculateGeodesicPoints exact_math lat1 lon1 lat2 lon2 n =
      map (geodesic_point exact_math phi1 lam1 (central_angle exact_math phi1 phi2 dlam)
             (initial_bearing exact_math phi1 phi2 dlam) n) [0..<Suc n]"
    unfolding calculateGeodesicPoints_cases
    using big
    by (simp only: if_False da exact_math_simps wrap_direction_exact
        phi1_def phi2_def dlam_def lam1_def)
  then have "last (calculateGeodesicPoints exact_math lat1 lon1 lat2 lon2 n) =
      geodesic_point exact_math phi1 lam1 (central_angle exact_math phi1 phi2 dlam)
             (initial_bearing exact_math phi1 phi2 dlam) n n"
    by (simp add: last_map)
  then show ?thesis by (simp only: pt lon lat)
qed

lemma calculateGreatCircle_cases:
  "calculateGreatCircle M lat1 lon1 lat2 lon2 n =
     (case class_angle M lat1 lon1 lat2 lon2 of
        None \<Rightarrow> [(lat1, lon1), (lat2, lon2)]
      | Some dsigma \<Rightarrow>
          if dsigma < 0.001 then [(lat1, lon1), (lat2, lon2)]
          else map (great_circle_point M (lat1 * PI M / 180) (lon1 * PI M / 180)
                      (lat2 * PI M / 180) (lon2 * PI M / 180) dsigma n) [0..<Suc n])"
  by (simp add: calculateGreatCircle_def class_angle_def Let_def great_circle_loop_map
      split: option.splits)



lemma same_point_argument: "sin phi * sin phi + cos phi * cos phi = (1 :: real)"
  using sin_cos_squared_add[of phi] by (simp add: power2_eq_square)

lemma central_angle_same_point: "central_angle exact_math phi phi 0 = 0"
  by (simp add: central_angle_def acos_argument_def same_point_argument)

lemma great_circle_angle_same_point: "great_circle_angle exact_math phi phi 0 = Some 0"
  by (simp add: great_circle_angle_def js_acos_def same_point_argument)

lemma calculateGeodesicPoints_same_point:
  "calculateGeodesicPoints exact_math lat lon lat lon n = [(lat, lon), (lat, lon)]"
  unfolding calculateGeodesicPoints_def Let_def wrap_direction_same
  by (simp add: central_angle_same_point)

lemma calculateGreatCircle_same_point:
  "calculateGreatCircle exact_math lat lon lat lon n = [(lat, lon), (lat, lon)]"
  by (simp add: calculateGreatCircle_def Let_def great_circle_angle_same_point)

text \<open>
  C7. When the central angle is below 0.001, and in calculateGreatCircle also when it is
  not-a-number, the interpolation returns the two endpoints as they are; under exact
  arithmetic the interpolation from a point to itself is that point twice, for every
  resolution.
\<close>

theorem C7_degenerate_two_points:
  "(dashboard_angle M lat1 lon1 lat2 lon2 < 0.001 \<longrightarrow>
      calculateGeodesicPoints M lat1 lon1 lat2 lon2 n = [(lat1, lon1), (lat2, lon2)]) \<and>
   ((case class_angle M lat1 lon1 lat2 lon2 of None \<Rightarrow> True | Some dsigma \<Rightarrow> dsigma < 0.001) \<longrightarrow>
      calculateGreatCircle M lat1 lon1 lat2 lon2 n = [(lat1, lon1), (lat2, lon2)]) \<and>
   calculateGeodesicPoints exact_math lat lon lat lon n = [(lat, lon), (lat, lon)] \<and>
   calculateGreatCircle exact_math lat lon lat lon n = [(lat, lon), (lat, lon)]"
proof -
  have "dashboard_angle M lat1 lon1 lat2 lon2 < 0.001 \<longrightarrow>
      calculateGeodesicPoints M lat1 lon1 lat2 lon2 n = [(lat1, lon1), (lat2, lon2)]"
    by (simp add: calculateGeodesicPoints_cases)
  moreover have
    "(case class_angle M lat1 lon1 lat2 lon2 of None \<Rightarrow> True | Some dsigma \<Rightarrow> dsigma < 0.001) \<longrightarrow>
      calculateGreatCircle M lat1 lon1 lat2 lon2 n = [(lat1, lon1), (lat2, lon2)]"
    by (simp add: calculateGreatCircle_cases split: option.splits)
  ultimately show ?thesis
    using calculateGeodesicPoints_same_point[of lat lon n]
          calculateGreatCircle_same_point[of lat lon n]
    by blast
qed

lemma equator_angle:
  assumes "0 \<le> d" and "d \<le> 180"
  shows "dashboard_angle exact_math 0 lon 0 (lon + d) = d * (pi / 180)"
    and "class_angle exact_math 0 lon 0 (lon + d) = Some (d * (pi / 180))"
proof -
  have w: "wrapped_lon lon (lon + d) = lon + d" using assms by (simp add: wrapped_lon_def)
  have r: "0 \<le> d * (pi / 180)" "d * (pi / 180) \<le> pi"
    using radians_le[OF assms(1)] radians_le[OF assms(2)] by simp_all
  have c: "cos_angle 0 0 (d * (pi / 180)) = cos (d * (pi / 180))"
    by (simp add: cos_angle_def)
  have ac: "arccos (cos (d * (pi / 180))) = d * (pi / 180)"
    using r by (rule arccos_cos)
  have dom: "\<not> (cos (d * (pi / 180)) < - 1 \<or> 1 < cos (d * (pi / 180)))"
    using cos_ge_minus_one[of "d * (pi / 180)"] cos_le_one[of "d * (pi / 180)"] by linarith
  have "dashboard_angle exact_math 0 lon 0 (lon + d)
          = central_angle exact_math 0 0 ((lon + d) * (pi / 180) - lon * (pi / 180))"
    by (simp only: dashboard_angle_def exact_math_simps wrap_direction_exact w mult_zero_left)
  also have "(lon + d) * (pi / 180) - lon * (pi / 180) = d * (pi / 180)"
    by (simp add: algebra_simps)
  finally have "dashboard_angle exact_math 0 lon 0 (lon + d)
      = central_angle exact_math 0 0 (d * (pi / 180))" .
  then show "dashboard_angle exact_math 0 lon 0 (lon + d) = d * (pi / 180)"
    by (simp only: central_angle_exact c ac)
  have e: "(lon + d) * pi / 180 - lon * pi / 180 = d * (pi / 180)"
    by (simp add: algebra_simps)
  have "class_angle exact_math 0 lon 0 (lon + d)
          = js_acos exact_math (cos (d * (pi / 180)))"
    unfolding class_angle_def great_circle_angle_def exact_math_simps e by simp
  then show "class_angle exact_math 0 lon 0 (lon + d) = Some (d * (pi / 180))"
    by (simp only: js_acos_def dom if_False exact_math_simps ac)
qed

theorem C7_degenerate_witness:
  "dashboard_angle exact_math 0 0 0 0.01 < 0.001 \<and>
   calculateGeodesicPoints exact_math 0 0 0 0.01 30 = [(0, 0), (0, 0.01)] \<and>
   (case class_angle exact_math 0 0 0 0.01 of None \<Rightarrow> True | Some dsigma \<Rightarrow> dsigma < 0.001) \<and>
   calculateGreatCircle exact_math 0 0 0 0.01 30 = [(0, 0), (0, 0.01)]"
proof -
  have "0.01 * (pi / 180) < (0.001 :: real)" using pi_less_4 by simp
  then have a: "dashboard_angle exact_math 0 0 0 0.01 < 0.001"
    and b: "(case class_angle exact_math 0 0 0 0.01 of
               None \<Rightarrow> True | Some dsigma \<Rightarrow> dsigma < 0.001)"
    using equator_angle[of "0.01" 0] by simp_all
  show ?thesis
    using C7_degenerate_two_points[of exact_math 0 0 0 "0.01" 30 0 0] a b by blast
qed

section \<open>The class's interpolation at its endpoints\<close>


declare normalize_above.simps [simp del] normalize_below.simps [simp del]







section \<open>The longitudes of an interpolated path\<close>

lemma bounded_no_jump:
  "list_all (\<lambda>p. a \<le> snd p \<and> snd p \<le> a + 180) ps \<Longrightarrow> no_jump ps"
  by (induction ps rule: no_jump.induct) auto

lemma eastward_longitude:
  assumes c1: "0 \<le> cos phi1" and east: "0 \<le> bearing_y phi2 dlam \<or> cos phi1 = 0"
    and i: "i \<le> n"
  shows "lam1 * 180 / pi \<le> snd (geodesic_point exact_math phi1 lam1
            (central_angle exact_math phi1 phi2 dlam)
            (initial_bearing exact_math phi1 phi2 dlam) n i) \<and>
         snd (geodesic_point exact_math phi1 lam1
            (central_angle exact_math phi1 phi2 dlam)
            (initial_bearing exact_math phi1 phi2 dlam) n i) \<le> lam1 * 180 / pi + 180"
proof -
  define dsigma where "dsigma = central_angle exact_math phi1 phi2 dlam"
  define theta where "theta = initial_bearing exact_math phi1 phi2 dlam"
  define sigma where "sigma = real i / real n * dsigma"
  define phi where "phi = arcsin (sin phi1 * cos sigma + cos phi1 * sin sigma * cos theta)"
  define a where "a = atan2 (sin theta * sin sigma * cos phi1) (cos sigma - sin phi1 * sin phi)"
  have ds: "0 \<le> dsigma" "dsigma \<le> pi"
    unfolding dsigma_def by (rule central_angle_range)+
  have f: "0 \<le> real i / real n" "real i / real n \<le> 1"
    using i by (auto simp: divide_le_eq_1)
  have "0 \<le> sigma" unfolding sigma_def using f(1) ds(1) by simp
  moreover have "sigma \<le> 1 * dsigma"
    unfolding sigma_def using f(2) ds(1) by (intro mult_right_mono)
  ultimately have ss: "0 \<le> sin sigma" using ds(2) by (intro sin_ge_zero) simp_all
  have "0 \<le> sin theta * sin sigma * cos phi1"
  proof (cases "cos phi1 = 0")
    case True
    then show ?thesis by simp
  next
    case False
    then have "0 \<le> bearing_y phi2 dlam" using east by simp
    then have "0 \<le> theta \<and> theta \<le> pi"
      unfolding theta_def initial_bearing_exact by (rule atan2_nonneg)
    then have "0 \<le> sin theta" by (intro sin_ge_zero) simp_all
    then show ?thesis using ss c1 by simp
  qed
  then have ar: "0 \<le> a \<and> a \<le> pi" unfolding a_def by (rule atan2_nonneg)
  have pt: "snd (geodesic_point exact_math phi1 lam1 dsigma theta n i) = (lam1 + a) * 180 / pi"
    by (simp add: geodesic_point_def Let_def a_def phi_def sigma_def)
  have "(lam1 + a) * 180 / pi = lam1 * 180 / pi + a * 180 / pi"
    by (simp add: field_simps)
  moreover have "0 \<le> a * 180 / pi" using ar pi_gt_zero by simp
  moreover have "a * 180 / pi \<le> 180" using ar pi_gt_zero by (simp add: field_simps)
  ultimately show ?thesis
    unfolding dsigma_def[symmetric] theta_def[symmetric] pt by linarith
qed

lemma westward_longitude:
  assumes c1: "0 < cos phi1" and west: "bearing_y phi2 dlam < 0" and i: "i \<le> n"
  shows "lam1 * 180 / pi - 180 \<le> snd (geodesic_point exact_math phi1 lam1
            (central_angle exact_math phi1 phi2 dlam)
            (initial_bearing exact_math phi1 phi2 dlam) n i) \<and>
         snd (geodesic_point exact_math phi1 lam1
            (central_angle exact_math phi1 phi2 dlam)
            (initial_bearing exact_math phi1 phi2 dlam) n i) \<le> lam1 * 180 / pi"
proof -
  define dsigma where "dsigma = central_angle exact_math phi1 phi2 dlam"
  define theta where "theta = initial_bearing exact_math phi1 phi2 dlam"
  define sigma where "sigma = real i / real n * dsigma"
  define phi where "phi = arcsin (sin phi1 * cos sigma + cos phi1 * sin sigma * cos theta)"
  define a where "a = atan2 (sin theta * sin sigma * cos phi1) (cos sigma - sin phi1 * sin phi)"
  have ds: "0 \<le> dsigma" "dsigma \<le> pi"
    unfolding dsigma_def by (rule central_angle_range)+
  have "0 < \<bar>bearing_y phi2 dlam\<bar>" using west by simp
  also have "\<dots> \<le> sqrt ((bearing_x phi1 phi2 dlam)\<^sup>2 + (bearing_y phi2 dlam)\<^sup>2)" by simp
  finally have "0 < sin dsigma" unfolding dsigma_def sin_central_angle .
  then have "dsigma \<noteq> pi" by auto
  then have dlt: "dsigma < pi" using ds(2) by simp
  have f: "0 \<le> real i / real n" "real i / real n \<le> 1"
    using i by (auto simp: divide_le_eq_1)
  have s0: "0 \<le> sigma" unfolding sigma_def using f(1) ds(1) by simp
  have "sigma \<le> 1 * dsigma"
    unfolding sigma_def using f(2) ds(1) by (intro mult_right_mono)
  then have s1: "sigma < pi" using dlt by simp
  have "- pi < theta \<and> theta < 0"
    unfolding theta_def initial_bearing_exact using west by (rule atan2_neg)
  then have "0 < sin (- theta)" by (intro sin_gt_zero) simp_all
  then have st: "sin theta < 0" by simp
  have ar: "- pi \<le> a \<and> a \<le> 0"
  proof (cases "sigma = 0")
    case True
    have "sin phi = sin phi1" by (simp add: phi_def True)
    then have "cos sigma - sin phi1 * sin phi = (cos phi1)\<^sup>2"
      using sin_cos_squared_add[of phi1] by (simp add: True power2_eq_square)
    then have "0 \<le> cos sigma - sin phi1 * sin phi" by simp
    then have "a = 0" by (simp add: a_def True atan2_def)
    then show ?thesis by simp
  next
    case False
    then have "0 < sigma" using s0 by simp
    then have "0 < sin sigma" using s1 by (rule sin_gt_zero)
    then have "sin theta * sin sigma * cos phi1 < 0"
      using st c1 by (simp add: mult_less_0_iff zero_less_mult_iff)
    then have "- pi < a \<and> a < 0" unfolding a_def by (rule atan2_neg)
    then show ?thesis by simp
  qed
  have pt: "snd (geodesic_point exact_math phi1 lam1 dsigma theta n i) = (lam1 + a) * 180 / pi"
    by (simp add: geodesic_point_def Let_def a_def phi_def sigma_def)
  have "(lam1 + a) * 180 / pi = lam1 * 180 / pi + a * 180 / pi"
    by (simp add: field_simps)
  moreover have "a * 180 / pi \<le> 0" using ar pi_gt_zero by (simp add: field_simps)
  moreover have "- 180 \<le> a * 180 / pi" using ar pi_gt_zero by (simp add: field_simps)
  ultimately show ?thesis
    unfolding dsigma_def[symmetric] theta_def[symmetric] pt by linarith
qed

text \<open>
  Under exact arithmetic the longitudes of an interpolated path all lie within 180 degrees
  on one side of the origin's: the dashboard's split finds no crossing in it.
\<close>

lemma interpolation_no_jump:
  assumes lat1: "- 90 \<le> lat1" "lat1 \<le> 90"
    and big: "\<not> dashboard_angle exact_math lat1 lon1 lat2 lon2 < 0.001"
  shows "no_jump (calculateGeodesicPoints exact_math lat1 lon1 lat2 lon2 n)"
proof -
  define phi1 where "phi1 = lat1 * (pi / 180)"
  define phi2 where "phi2 = lat2 * (pi / 180)"
  define lam1 where "lam1 = lon1 * (pi / 180)"
  define dlam where "dlam = wrapped_lon lon1 lon2 * (pi / 180) - lon1 * (pi / 180)"
  have c1: "0 \<le> cos phi1"
    unfolding phi1_def using radians_range[OF lat1] by (intro cos_ge_zero) simp_all
  have da: "dashboard_angle exact_math lat1 lon1 lat2 lon2 = central_angle exact_math phi1 phi2 dlam"
    by (simp only: dashboard_angle_def exact_math_simps wrap_direction_exact
        phi1_def phi2_def dlam_def)
  have eq: "calculateGeodesicPoints exact_math lat1 lon1 lat2 lon2 n =
      map (geodesic_point exact_math phi1 lam1 (central_angle exact_math phi1 phi2 dlam)
             (initial_bearing exact_math phi1 phi2 dlam) n) [0..<Suc n]"
    unfolding calculateGeodesicPoints_cases
    using big
    by (simp only: if_False da exact_math_simps wrap_direction_exact
        phi1_def phi2_def dlam_def lam1_def)
  show ?thesis
  proof (cases "0 \<le> bearing_y phi2 dlam \<or> cos phi1 = 0")
    case True
    have "list_all (\<lambda>p. lam1 * 180 / pi \<le> snd p \<and> snd p \<le> lam1 * 180 / pi + 180)
          (map (geodesic_point exact_math phi1 lam1 (central_angle exact_math phi1 phi2 dlam)
             (initial_bearing exact_math phi1 phi2 dlam) n) [0..<Suc n])"
      unfolding list_all_iff
      using eastward_longitude[OF c1 True, of _ n lam1] by auto
    then show ?thesis unfolding eq by (rule bounded_no_jump)
  next
    case False
    then have w: "bearing_y phi2 dlam < 0" and c: "0 < cos phi1" using c1 by simp_all
    have "list_all (\<lambda>p. (lam1 * 180 / pi - 180) \<le> snd p \<and> snd p \<le> (lam1 * 180 / pi - 180) + 180)
          (map (geodesic_point exact_math phi1 lam1 (central_angle exact_math phi1 phi2 dlam)
             (initial_bearing exact_math phi1 phi2 dlam) n) [0..<Suc n])"
      unfolding list_all_iff
      using westward_longitude[OF c w, of _ n lam1] by auto
    then show ?thesis unfolding eq by (rule bounded_no_jump)
  qed
qed

lemma interpolated_path_never_split:
  assumes "- 90 \<le> lat1" and "lat1 \<le> 90"
    and "\<not> dashboard_angle exact_math lat1 lon1 lat2 lon2 < 0.001"
  shows "splitAtAntimeridian (calculateGeodesicPoints exact_math lat1 lon1 lat2 lon2 n)
           = [calculateGeodesicPoints exact_math lat1 lon1 lat2 lon2 n]"
  by (intro split_no_jump_single calculateGeodesicPoints_nonempty interpolation_no_jump assms)

subsection \<open>Tokyo to Los Angeles\<close>

lemma tokyo_wrapped: "wrapped_lon 139.7 (- 118.2) = 241.8"
  by (simp add: wrapped_lon_def)

lemma sin_le_half_sqrt2:
  assumes "0 \<le> lat" and "lat \<le> 45"
  shows "0 \<le> sin (lat * (pi / 180)) \<and> sin (lat * (pi / 180)) \<le> sqrt 2 / 2"
proof -
  have r: "0 \<le> lat * (pi / 180)" "lat * (pi / 180) \<le> pi / 4"
    using radians_le[OF assms(1)] radians_le[OF assms(2)] by simp_all
  have "0 \<le> sin (lat * (pi / 180))"
    using r pi_gt_zero by (intro sin_ge_zero) linarith+
  moreover have "sin (lat * (pi / 180)) \<le> sin (pi / 4)"
    using r pi_gt_zero by (intro sin_monotone_2pi_le) linarith+
  ultimately show ?thesis by (simp add: sin_45)
qed

lemma tokyo_angle: "\<not> dashboard_angle exact_math 35.7 139.7 34 (- 118.2) < 0.001"
proof -
  define phi1 :: real where "phi1 = 35.7 * (pi / 180)"
  define phi2 :: real where "phi2 = 34 * (pi / 180)"
  define dlam :: real where "dlam = (241.8 - 139.7) * (pi / 180)"
  have da: "dashboard_angle exact_math 35.7 139.7 34 (- 118.2) = arccos (cos_angle phi1 phi2 dlam)"
    unfolding central_angle_exact[symmetric]
    by (simp only: dashboard_angle_def exact_math_simps wrap_direction_exact tokyo_wrapped
        phi1_def phi2_def dlam_def left_diff_distrib)
  have s1: "0 \<le> sin phi1 \<and> sin phi1 \<le> sqrt 2 / 2"
    unfolding phi1_def by (rule sin_le_half_sqrt2) simp_all
  have s2: "0 \<le> sin phi2 \<and> sin phi2 \<le> sqrt 2 / 2"
    unfolding phi2_def by (rule sin_le_half_sqrt2) simp_all
  have "sin phi1 * sin phi2 \<le> (sqrt 2 / 2) * (sqrt 2 / 2)"
    using s1 s2 by (intro mult_mono) simp_all
  then have ss: "sin phi1 * sin phi2 \<le> 1 / 2" by simp
  have c1: "0 < cos phi1" unfolding phi1_def by (intro radians_cos_pos) simp_all
  have c2: "0 < cos phi2" unfolding phi2_def by (intro radians_cos_pos) simp_all
  have "(90 :: real) * (pi / 180) < dlam" "dlam \<le> 180 * (pi / 180)"
    unfolding dlam_def by (intro radians_less radians_le; simp)+
  then have "pi / 2 < dlam" "dlam \<le> pi" by simp_all
  then have "cos dlam < cos (pi / 2)"
    using pi_gt_zero by (intro cos_monotone_0_pi) simp_all
  then have "cos dlam < 0" by simp
  then have "cos phi1 * cos phi2 * cos dlam \<le> 0"
    using c1 c2 by (simp add: mult_le_0_iff zero_le_mult_iff less_imp_le)
  with ss have le: "cos_angle phi1 phi2 dlam \<le> 1 / 2" by (simp add: cos_angle_def)
  have "arccos (1 / 2) \<le> arccos (cos_angle phi1 phi2 dlam)"
    using cos_angle_bounds(1)[of phi1 phi2 dlam] le by (intro arccos_le_arccos) simp_all
  moreover have "arccos (1 / 2) = pi / 3"
    using arccos_cos[of "pi / 3"] pi_gt_zero by (simp add: cos_60)
  moreover have "(0.001 :: real) \<le> pi / 3" using pi_ge_two by simp
  ultimately show ?thesis unfolding da by linarith
qed

lemma tokyo_no_jump: "no_jump (calculateGeodesicPoints exact_math 35.7 139.7 34 (- 118.2) n)"
  by (rule interpolation_no_jump[OF _ _ tokyo_angle]) simp_all

lemma tokyo_last:
  "0 < n \<Longrightarrow> last (calculateGeodesicPoints exact_math 35.7 139.7 34 (- 118.2) n) = (34, 241.8)"
proof -
  assume n: "0 < n"
  have d: "- 180 < wrapped_lon 139.7 (- 118.2) - 139.7" "wrapped_lon 139.7 (- 118.2) - 139.7 \<le> 180"
    unfolding tokyo_wrapped by simp_all
  have "last (calculateGeodesicPoints exact_math 35.7 139.7 34 (- 118.2) n)
          = (34, wrapped_lon 139.7 (- 118.2))"
    by (rule last_point_exact[OF n _ _ _ _ d tokyo_angle]) simp_all
  then show ?thesis unfolding tokyo_wrapped .
qed

section \<open>The endpoints of the interpolation\<close>



subsection \<open>London to New York\<close>






section \<open>The path from Tokyo to Los Angeles\<close>

lemma tokyo_single_segment:
  "splitAtAntimeridian (calculateGeodesicPoints exact_math 35.7 139.7 34 (- 118.2) n)
     = [calculateGeodesicPoints exact_math 35.7 139.7 34 (- 118.2) n]"
  by (intro split_no_jump_single calculateGeodesicPoints_nonempty tokyo_no_jump)

text \<open>
  C1, at its own input. From Tokyo to Los Angeles createFlightPath takes resolution 100 and
  the dashboard's wrap direction adds a full turn to the second longitude (the way east);
  the dashboard's interpolation then returns 101 points with no jump between them, and
  its split returns them as one segment, with no crossing point.
\<close>

theorem C1_tokyo_los_angeles:
  "createFlightPath M (35.7, 139.7) (34, - 118.2) =
     GeodesicLine_splitAtAntimeridian (calculateGreatCircle M 35.7 139.7 34 (- 118.2) 100) \<and>
   wrap_direction exact_math (139.7 * (pi / 180)) (- 118.2 * (pi / 180))
     = - 118.2 * (pi / 180) + 2 * pi \<and>
   length (calculateGeodesicPoints exact_math 35.7 139.7 34 (- 118.2) 100) = 101 \<and>
   splitAtAntimeridian (calculateGeodesicPoints exact_math 35.7 139.7 34 (- 118.2) 100)
     = [calculateGeodesicPoints exact_math 35.7 139.7 34 (- 118.2) 100]"
proof -
  have 1: "createFlightPath M (35.7, 139.7) (34, - 118.2) =
     GeodesicLine_splitAtAntimeridian (calculateGreatCircle M 35.7 139.7 34 (- 118.2) 100)"
    by (simp add: createFlightPath_def)
  have 2: "wrap_direction exact_math (139.7 * (pi / 180)) (- 118.2 * (pi / 180))
     = - 118.2 * (pi / 180) + 2 * pi"
    unfolding wrap_direction_exact tokyo_wrapped by (simp add: algebra_simps)
  have 3: "length (calculateGeodesicPoints exact_math 35.7 139.7 34 (- 118.2) 100) = 101"
    unfolding calculateGeodesicPoints_cases using tokyo_angle by simp
  show ?thesis using 1 2 3 tokyo_single_segment[of 100] by blast
qed

text \<open>
  C4, at the same input. The last point of the only segment of the path from Tokyo to Los
  Angeles has longitude 241.8, and the offset-0 polyline of the layer group carries it.
\<close>

theorem C4_tokyo_longitude:
  "last (concat (splitAtAntimeridian
           (calculateGeodesicPoints exact_math 35.7 139.7 34 (- 118.2) 100))) = (34, 241.8) \<and>
   last (pl_latlngs (createInfiniteGeodesicLine exact_math (35.7, 139.7) (34, - 118.2) options ! 2))
     = (34, 241.8) \<and>
   \<not> in_range (34, 241.8)"
proof -
  define path where "path = calculateGeodesicPoints exact_math 35.7 139.7 34 (- 118.2) 100"
  have n: "0 < (100 :: nat)" by simp
  have l: "last path = (34, 241.8)" unfolding path_def by (rule tokyo_last[OF n])
  have s: "splitAtAntimeridian path = [path]" unfolding path_def by (rule tokyo_single_segment)
  have ne: "path \<noteq> []" unfolding path_def by (rule calculateGeodesicPoints_nonempty)
  have "createInfiniteGeodesicLine exact_math (35.7, 139.7) (34, - 118.2) options
          = segments_forEach options [path] 0 []"
    unfolding createInfiniteGeodesicLine_def prod.case Let_def path_def[symmetric] s ..
  then have "pl_latlngs (createInfiniteGeodesicLine exact_math (35.7, 139.7) (34, - 118.2) options ! 2)
          = map (\<lambda>(lat, lon). (lat, lon + 0)) path"
    by (simp add: segments_forEach_eval offset_line_fields)
  then have p: "last (pl_latlngs
      (createInfiniteGeodesicLine exact_math (35.7, 139.7) (34, - 118.2) options ! 2)) = (34, 241.8)"
    using ne l by (simp add: last_map)
  show ?thesis
    unfolding path_def[symmetric] s using l p by (simp add: in_range_def)
qed

section \<open>Coordinates out of range\<close>







section \<open>The class's split at a crossing\<close>

text \<open>
  The duplicate in the class GeodesicLine puts the boundary at exactly 180 and returns the
  points of all segments as one flat list; the break point reaches the closed segment only
  when the index \<^verbatim>\<open>currentSegment.length - 1\<close> happens to be that segment's index in
  \<^verbatim>\<open>result\<close>.
\<close>

lemma GeodesicLine_split_one_point_before:
  "GeodesicLine_splitAtAntimeridian [(10, 170), (20, - 170)] =
     [(10, 170), (175 / 17, 180), (175 / 17, - 180), (20, - 170)]"
  by (simp add: GeodesicLine_splitAtAntimeridian_def Let_def)

lemma GeodesicLine_split_two_points_before:
  "GeodesicLine_splitAtAntimeridian [(0, 160), (0, 170), (0, - 170)] =
     [(0, 160), (0, 170), (0, - 180), (0, - 170)]"
  by (simp add: GeodesicLine_splitAtAntimeridian_def Let_def)

section \<open>Short inputs\<close>

text \<open>
  C10. The dashboard's splitAtAntimeridian returns normally on inputs shorter than two
  points: no segment for the empty list, and the one-point segment for a one-point list.
\<close>

theorem C10_split_short_inputs:
  "splitAtAntimeridian [] = [] \<and> splitAtAntimeridian [p] = [[p]]"
  by (simp add: splitAtAntimeridian_def split_loop_first)

end
